theory Spec2Isabelle
  imports
    Complex_Main
    "HOL-Library.Multiset"
    "HOL-Library.Log_Nat"
    "HOL-Library.Char_ord"
    "HOL-Library.List_Lexorder"
    "HOL-Library.Product_Lexorder"
begin

section \<open>The data frame of \<^verbatim>\<open>app.py\<close>\<close>

text \<open>
  \<^verbatim>\<open>app.py\<close> keeps one pandas frame, \<^verbatim>\<open>data\<close>, and rewrites it in place:
  it selects and renames four columns of the CSV, coerces the \<^verbatim>\<open>Date\<close> column to
  calendar days, drops the rows without a day, groups by \<^verbatim>\<open>(Country, Date)\<close>, and adds
  the columns \<^verbatim>\<open>Recovered\<close> and \<^verbatim>\<open>Active\<close>. The callback \<^verbatim>\<open>update_dashboard\<close> then
  reads the frame.

  A frame is a list of rows, in index order. The type of the \<^verbatim>\<open>Date\<close> cell changes
  along the way (text, then a day or \<^verbatim>\<open>NaT\<close>, then a day), so the row type takes it as a
  parameter. A \<^verbatim>\<open>datetime.date\<close> is the triple (year, month, day); Python compares dates
  as it compares these triples, lexicographically. \<^verbatim>\<open>Country\<close> cells are Python strings,
  compared code point by code point, which is the lexicographic order of their bytes.

  Every row of the CSV gives its country and both counts, the counts as integers, so
  \<^verbatim>\<open>Confirmed\<close> and \<^verbatim>\<open>Deaths\<close> are \<^verbatim>\<open>int64\<close> columns, and so are the columns computed from
  them. A cell is the integer it holds, between \<open>- 2 ^ 63\<close> and \<open>2 ^ 63 - 1\<close>; pandas adds
  and subtracts \<^verbatim>\<open>int64\<close> cells without any check, so a result outside that range wraps
  around. \<open>wrap64\<close> is that wrap-around, written out at every sum and difference of the
  source.
\<close>

type_synonym date = "nat \<times> nat \<times> nat"

definition in_int64 :: "int \<Rightarrow> bool" where
  "in_int64 n \<longleftrightarrow> - (2 ^ 63) \<le> n \<and> n < 2 ^ 63"

definition wrap64 :: "int \<Rightarrow> int" where
  "wrap64 n = (n + 2 ^ 63) mod 2 ^ 64 - 2 ^ 63"

record 'd row =
  Country :: string
  Date :: 'd
  Confirmed :: int
  Deaths :: int

record derived_row = "date row" +
  Recovered :: int
  Active :: int

subsection \<open>Lines 20 and 21: days instead of timestamps\<close>

text \<open>
  \<^verbatim>\<open>data['Date'] = pd.to_datetime(data['Date'], utc=True, errors='coerce')
                    .dt.tz_localize(None).dt.date\<close>

  \<^verbatim>\<open>pd.to_datetime\<close> is pandas' parser, applied to the whole column; with the two
  accessors after it, it is the parameter \<open>to_datetime\<close>, which gives for the texts of a
  column, cell by cell, the UTC calendar day of the timestamp, or \<open>None\<close> (the \<^verbatim>\<open>NaT\<close> that
  \<^verbatim>\<open>errors='coerce'\<close> puts) where the text does not parse. It is a function of the
  column, not of the cell: pandas may settle on one format for the column and read every
  cell in it. The column it returns is as long as the one it is given, so pairing the
  rows with its cells loses none.
\<close>

definition coerce_dates ::
  "(string list \<Rightarrow> date option list) \<Rightarrow> string row list \<Rightarrow> date option row list" where
  "coerce_dates to_datetime data =
     map2 (\<lambda>r d. \<lparr>Country = Country r, Date = d, Confirmed = Confirmed r, Deaths = Deaths r\<rparr>)
       data (to_datetime (map Date data))"

text \<open>\<^verbatim>\<open>data.dropna(subset=['Date'], inplace=True)\<close>: the rows whose \<^verbatim>\<open>Date\<close> is
  \<^verbatim>\<open>NaT\<close> go; the others stay, in their order.\<close>

definition dropna_Date :: "date option row list \<Rightarrow> date row list" where
  "dropna_Date data =
     List.map_filter
       (\<lambda>r. case Date r of
               None \<Rightarrow> None
             | Some d \<Rightarrow> Some \<lparr>Country = Country r, Date = d,
                               Confirmed = Confirmed r, Deaths = Deaths r\<rparr>) data"

subsection \<open>Lines 23 to 26: one row per country and day\<close>

text \<open>
  \<^verbatim>\<open>data.groupby(['Country', 'Date'], as_index=False).agg({'Confirmed': 'sum', 'Deaths': 'sum'})\<close>

  \<^verbatim>\<open>groupby\<close> sorts the group keys (\<^verbatim>\<open>sort=True\<close> is its default) and gives one row per
  distinct key, holding the key and the sum of each aggregated column over the rows of
  the group. The sums are \<^verbatim>\<open>int64\<close> sums: adding cell after cell with wrap-around gives
  the exact sum wrapped once.
\<close>

definition group_key :: "('d, 'a) row_scheme \<Rightarrow> string \<times> 'd" where
  "group_key r = (Country r, Date r)"

definition group_keys :: "date row list \<Rightarrow> (string \<times> date) list" where
  "group_keys data = sort (remdups (map group_key data))"

definition group_rows :: "date row list \<Rightarrow> string \<times> date \<Rightarrow> date row list" where
  "group_rows data k = filter (\<lambda>r. group_key r = k) data"

definition groupby_sum :: "date row list \<Rightarrow> date row list" where
  "groupby_sum data =
     map (\<lambda>k. \<lparr>Country = fst k, Date = snd k,
                Confirmed = wrap64 (sum_list (map Confirmed (group_rows data k))),
                Deaths = wrap64 (sum_list (map Deaths (group_rows data k)))\<rparr>)
       (group_keys data)"

subsection \<open>Lines 29 and 30: the derived columns\<close>

text \<open>
  \<^verbatim>\<open>data['Recovered'] = np.clip((data['Confirmed'] - data['Deaths']) * 0.8,
                                a_min=0, a_max=None).astype(int)\<close>

  The difference is an \<^verbatim>\<open>int64\<close> difference, with wrap-around; multiplying it by the
  literal \<^verbatim>\<open>0.8\<close> converts it to a \<^verbatim>\<open>float64\<close> and multiplies in \<^verbatim>\<open>float64\<close>; \<^verbatim>\<open>np.clip\<close>
  raises what is below 0 to 0; \<^verbatim>\<open>astype(int)\<close> drops the fraction (toward zero). The
  product is at most \<open>0.8 * 2 ^ 63\<close>, so the conversion back to \<^verbatim>\<open>int64\<close> is exact.

  A finite \<^verbatim>\<open>float64\<close> is a rational number, and every operation gives the double nearest
  to the exact result, ties going to the even significand. \<open>float64\<close> is that rounding
  to 53 significant bits. The exponent range is not modelled: the values of this
  computation are 0 or of magnitude between 0.8 and \<open>2 ^ 63\<close>, far from underflow and
  overflow.
\<close>

definition round_half_even :: "rat \<Rightarrow> int" where
  "round_half_even y =
     (let f = \<lfloor>y\<rfloor>; r = y - of_int f
      in if r < 1 / 2 then f
         else if 1 / 2 < r then f + 1
         else if even f then f else f + 1)"

text \<open>\<open>ilog2 q\<close> is the binary exponent of a positive rational \<open>q\<close>: the \<open>k\<close> with
  \<open>2 ^ k \<le> q < 2 ^ (k + 1)\<close>. The numerator and the denominator have \<open>bitlen\<close> binary
  digits each, which fixes \<open>k\<close> up to one.\<close>

definition ilog2 :: "rat \<Rightarrow> int" where
  "ilog2 q =
     (let k = bitlen (fst (quotient_of q)) - bitlen (snd (quotient_of q))
      in if 2 powi k \<le> q then k else k - 1)"

definition float64 :: "rat \<Rightarrow> rat" where
  "float64 q =
     (if q = 0 then 0
      else let e = ilog2 \<bar>q\<bar> - 52
           in sgn q * of_int (round_half_even (\<bar>q\<bar> / 2 powi e)) * 2 powi e)"

text \<open>The literal \<^verbatim>\<open>0.8\<close> is the double nearest to four fifths.\<close>

definition float_0_8 :: rat where
  "float_0_8 = float64 (8 / 10)"

definition float64_of_int :: "int \<Rightarrow> rat" where
  "float64_of_int n = float64 (of_int n)"

definition float64_mul :: "rat \<Rightarrow> rat \<Rightarrow> rat" where
  "float64_mul a b = float64 (a * b)"

text \<open>\<^verbatim>\<open>np.clip(y, a_min=0, a_max=None)\<close>\<close>

definition clip_min_0 :: "rat \<Rightarrow> rat" where
  "clip_min_0 y = (if y < 0 then 0 else y)"

text \<open>\<^verbatim>\<open>.astype(int)\<close> on a \<^verbatim>\<open>float64\<close>: the C conversion, toward zero.\<close>

definition astype_int :: "rat \<Rightarrow> int" where
  "astype_int y = (if 0 \<le> y then \<lfloor>y\<rfloor> else \<lceil>y\<rceil>)"

definition recovered_of :: "int \<Rightarrow> int \<Rightarrow> int" where
  "recovered_of confirmed deaths =
     astype_int
       (clip_min_0 (float64_mul (float64_of_int (wrap64 (confirmed - deaths))) float_0_8))"

text \<open>\<^verbatim>\<open>data['Active'] = data['Confirmed'] - data['Deaths'] - data['Recovered']\<close>: two
  \<^verbatim>\<open>int64\<close> subtractions, left to right.\<close>

definition add_features :: "date row \<Rightarrow> derived_row" where
  "add_features r =
     (let rec = recovered_of (Confirmed r) (Deaths r)
      in \<lparr>Country = Country r, Date = Date r, Confirmed = Confirmed r, Deaths = Deaths r,
          Recovered = rec, Active = wrap64 (wrap64 (Confirmed r - Deaths r) - rec)\<rparr>)"

text \<open>The frame \<^verbatim>\<open>data\<close> as the callback finds it, from the four selected columns of
  the CSV.\<close>

definition load_data ::
  "(string list \<Rightarrow> date option list) \<Rightarrow> string row list \<Rightarrow> derived_row list" where
  "load_data to_datetime csv =
     map add_features (groupby_sum (dropna_Date (coerce_dates to_datetime csv)))"

text \<open>Line 57, the options of the country dropdown:
  \<^verbatim>\<open>sorted(data['Country'].unique())\<close>\<close>

definition listCountries :: "derived_row list \<Rightarrow> string list" where
  "listCountries data = sort (remdups (map Country data))"

section \<open>The callback \<^verbatim>\<open>update_dashboard\<close>\<close>

text \<open>
  \<^verbatim>\<open>start_date = datetime.strptime(start_date_str.split('T')[0], '%Y-%m-%d').date()\<close>

  \<^verbatim>\<open>s.split('T')[0]\<close> is the text before the first \<^verbatim>\<open>T\<close>, all of \<^verbatim>\<open>s\<close> when it has
  none. \<^verbatim>\<open>datetime.strptime\<close> with the format \<^verbatim>\<open>'%Y-%m-%d'\<close> is the standard library's; it
  is the parameter \<open>strptime\<close>, \<open>None\<close> where Python raises \<^verbatim>\<open>ValueError\<close>. The start
  string is parsed first, so its error is the one raised when both fail. The date picker
  hands the callback strings; both dates are set in the layout.
\<close>

datatype error = ValueError | TypeError

definition split_T :: "string \<Rightarrow> string" where
  "split_T s = takeWhile (\<lambda>c. c \<noteq> CHR ''T'') s"

definition parse_date :: "(string \<Rightarrow> date option) \<Rightarrow> string \<Rightarrow> error + date" where
  "parse_date strptime s =
     (case strptime (split_T s) of None \<Rightarrow> Inl ValueError | Some d \<Rightarrow> Inr d)"

text \<open>
  \<^verbatim>\<open>filtered = data[(data['Country'] == selected_country) &
                  (data['Date'] >= start_date) &
                  (data['Date'] <= end_date)].sort_values('Date').copy()\<close>

  The mask keeps the rows in their order. The sort is written as a stable one; on the
  frame that \<open>load_data\<close> builds no two rows of a country have the same day (proved
  in the section on the filter), so there every sort gives the same frame.
\<close>

definition filter_data :: "derived_row list \<Rightarrow> string \<Rightarrow> date \<Rightarrow> date \<Rightarrow> derived_row list" where
  "filter_data data selected_country start_date end_date =
     sort_key Date
       (filter (\<lambda>r. Country r = selected_country \<and> start_date \<le> Date r \<and> Date r \<le> end_date)
          data)"

text \<open>\<^verbatim>\<open>column.max()\<close> of a column that has a row: the running maximum, from the first
  cell on. The callback calls it only on a frame that is not empty.\<close>

definition col_max :: "int \<Rightarrow> int list \<Rightarrow> int" where
  "col_max x xs = fold max xs x"

text \<open>
  What the callback computes from its three inputs: the filtered frame, which the
  figure plots, and the four numbers of the cards.

  A frame without any row is a case of its own. When every row of the CSV was dropped,
  the \<^verbatim>\<open>Date\<close> column of the empty frame no longer holds \<^verbatim>\<open>datetime.date\<close> objects, and the
  comparison \<^verbatim>\<open>data['Date'] >= start_date\<close> of line 107 raises \<^verbatim>\<open>TypeError\<close>: the callback
  fails after parsing its dates and before it filters.
\<close>

record dashboard =
  filtered :: "derived_row list"
  total_cases :: int
  total_deaths :: int
  total_recovered :: int
  active_cases :: int

definition kpis :: "derived_row list \<Rightarrow> dashboard" where
  "kpis rows =
     (case rows of
        [] \<Rightarrow> \<lparr>filtered = rows, total_cases = 0, total_deaths = 0, total_recovered = 0,
               active_cases = 0\<rparr>
      | r # rs \<Rightarrow>
          \<lparr>filtered = rows,
           total_cases = col_max (Confirmed r) (map Confirmed rs),
           total_deaths = col_max (Deaths r) (map Deaths rs),
           total_recovered = col_max (Recovered r) (map Recovered rs),
           active_cases = Active (last rows)\<rparr>)"

definition update_dashboard ::
  "(string \<Rightarrow> date option) \<Rightarrow> derived_row list \<Rightarrow> string \<Rightarrow> string \<Rightarrow> string \<Rightarrow> error + dashboard" where
  "update_dashboard strptime data selected_country start_date_str end_date_str =
     (case parse_date strptime start_date_str of
        Inl e \<Rightarrow> Inl e
      | Inr start_date \<Rightarrow>
          (case parse_date strptime end_date_str of
             Inl e \<Rightarrow> Inl e
           | Inr end_date \<Rightarrow>
               if data = [] then Inl TypeError
               else Inr (kpis (filter_data data selected_country start_date end_date))))"

section \<open>Reference values and a worked example\<close>

text \<open>The result of the callback on a frame without a matching row.\<close>

definition no_data :: dashboard where
  "no_data =
     \<lparr>filtered = [], total_cases = 0, total_deaths = 0, total_recovered = 0, active_cases = 0\<rparr>"


text \<open>
  The specification's formula for the recovered count,
  \<^verbatim>\<open>floor(max(0, (confirmed - deaths) * 0.8))\<close>, in exact arithmetic, and its reading
  with the clamp on the difference before the scaling. The source has neither; they are
  what \<open>recovered_of\<close> is compared with.
\<close>

definition spec_recovered :: "int \<Rightarrow> int \<Rightarrow> int" where
  "spec_recovered confirmed deaths = \<lfloor>max 0 (of_int (confirmed - deaths) * (8 / 10 :: rat))\<rfloor>"

definition spec_recovered_clamp_first :: "int \<Rightarrow> int \<Rightarrow> int" where
  "spec_recovered_clamp_first confirmed deaths =
     \<lfloor>of_int (max 0 (confirmed - deaths)) * (8 / 10 :: rat)\<rfloor>"

text \<open>
  The worked example of the specification: three reports of country \<open>X\<close>, two of them
  on the same day. \<open>example_to_date\<close> and \<open>example_strptime\<close> give the values of pandas'
  parser and of \<^verbatim>\<open>datetime.strptime\<close> on the texts the examples use; the examples need
  nothing else of the two. The only other text in an example is \<^verbatim>\<open>not a date\<close>, which
  pandas coerces to \<^verbatim>\<open>NaT\<close>. The columns of the examples are read cell by cell,
  \<open>map example_to_date\<close>.
\<close>

definition example_to_date :: "string \<Rightarrow> date option" where
  "example_to_date s =
     (if s = ''2021-01-01T08:00Z'' then Some (2021, 1, 1)
      else if s = ''2021-01-01T20:00Z'' then Some (2021, 1, 1)
      else if s = ''2021-01-02T00:00Z'' then Some (2021, 1, 2)
      else None)"

definition example_strptime :: "string \<Rightarrow> date option" where
  "example_strptime s =
     (if s = ''2021-01-01'' then Some (2021, 1, 1)
      else if s = ''2021-01-02'' then Some (2021, 1, 2)
      else if s = ''2021-01-03'' then Some (2021, 1, 3)
      else None)"

definition example_csv :: "string row list" where
  "example_csv =
     [\<lparr>Country = ''X'', Date = ''2021-01-01T08:00Z'', Confirmed = 100, Deaths = 5\<rparr>,
      \<lparr>Country = ''X'', Date = ''2021-01-01T20:00Z'', Confirmed = 10, Deaths = 1\<rparr>,
      \<lparr>Country = ''X'', Date = ''2021-01-02T00:00Z'', Confirmed = 50, Deaths = 2\<rparr>]"

definition example_rows :: "date row list" where
  "example_rows = dropna_Date (coerce_dates (map example_to_date) example_csv)"

definition example_data :: "derived_row list" where
  "example_data = load_data (map example_to_date) example_csv"

definition day1 :: derived_row where
  "day1 = \<lparr>Country = ''X'', Date = (2021, 1, 1), Confirmed = 110, Deaths = 6,
            Recovered = 83, Active = 21\<rparr>"

definition day2 :: derived_row where
  "day2 = \<lparr>Country = ''X'', Date = (2021, 1, 2), Confirmed = 50, Deaths = 2,
            Recovered = 38, Active = 10\<rparr>"

lemma example_data_rows: "example_data = [day1, day2]"
  by code_simp

section \<open>The \<^verbatim>\<open>int64\<close> cells\<close>

lemma wrap64_id: "in_int64 n \<Longrightarrow> wrap64 n = n"
  by (simp add: in_int64_def wrap64_def)

lemma in_int64_wrap64: "in_int64 (wrap64 n)"
proof -
  have "0 \<le> (n + 2 ^ 63) mod 2 ^ 64" and "(n + 2 ^ 63) mod 2 ^ 64 < (2 ^ 64 :: int)"
    by simp_all
  then show ?thesis
    by (simp add: in_int64_def wrap64_def)
qed

lemma wrap64_wrap64: "wrap64 (wrap64 n) = wrap64 n"
  by (rule wrap64_id) (rule in_int64_wrap64)

lemma wrap64_add_right: "wrap64 (a + wrap64 b) = wrap64 (a + b)"
proof -
  have "(a + ((b + 2 ^ 63) mod 2 ^ 64 - 2 ^ 63) + 2 ^ 63) mod 2 ^ 64 =
        (a + (b + 2 ^ 63) mod 2 ^ 64) mod (2 ^ 64 :: int)"
    by (simp only: diff_add_cancel add.assoc [symmetric] add_diff_eq)
  also have "\<dots> = (a + (b + 2 ^ 63)) mod 2 ^ 64"
    by (rule mod_add_right_eq)
  finally show ?thesis
    by (simp only: wrap64_def add.assoc)
qed

lemma wrap64_add_left: "wrap64 (wrap64 a + b) = wrap64 (a + b)"
  using wrap64_add_right [of b a] by (simp only: add.commute)

lemma wrap64_diff_left: "wrap64 (wrap64 a - b) = wrap64 (a - b)"
  using wrap64_add_left [of a "- b"] by simp

section \<open>Rounding to a double\<close>

lemma rhe_ge_floor: "\<lfloor>y\<rfloor> \<le> round_half_even y"
  by (simp add: round_half_even_def Let_def)

lemma rhe_le_floor1: "round_half_even y \<le> \<lfloor>y\<rfloor> + 1"
  by (simp add: round_half_even_def Let_def)

lemma rhe_lower:
  assumes "of_int k \<le> y"
  shows "k \<le> round_half_even y"
proof -
  have "k \<le> \<lfloor>y\<rfloor>" using assms by (simp add: le_floor_iff)
  then show ?thesis using rhe_ge_floor [of y] by linarith
qed

lemma rhe_upper:
  assumes "y < of_int k + 1 / 2"
  shows "round_half_even y \<le> k"
proof (cases "\<lfloor>y\<rfloor> < k")
  case True
  then show ?thesis using rhe_le_floor1 [of y] by linarith
next
  case False
  have "y < of_int (k + 1)" using assms by simp
  then have "\<lfloor>y\<rfloor> < k + 1" by (simp only: floor_less_iff)
  with False have fl: "\<lfloor>y\<rfloor> = k" by linarith
  then have "y - of_int \<lfloor>y\<rfloor> < 1 / 2" using assms by simp
  then show ?thesis by (simp add: round_half_even_def Let_def fl)
qed

lemma rhe_of_int: "round_half_even (of_int k) = k"
  by (simp add: round_half_even_def)

lemma rhe_le_half: "of_int (round_half_even y) \<le> y + 1 / 2"
proof -
  have a: "of_int \<lfloor>y\<rfloor> \<le> y" by simp
  show ?thesis
  proof (cases "y - of_int \<lfloor>y\<rfloor> < 1 / 2")
    case True
    then have "round_half_even y = \<lfloor>y\<rfloor>" by (simp add: round_half_even_def Let_def)
    then have "of_int (round_half_even y) = (of_int \<lfloor>y\<rfloor> :: rat)" by simp
    then show ?thesis using a by linarith
  next
    case False
    then have "of_int (\<lfloor>y\<rfloor> + 1) \<le> y + 1 / 2" by simp
    moreover have "of_int (round_half_even y) \<le> (of_int (\<lfloor>y\<rfloor> + 1) :: rat)"
      using rhe_le_floor1 [of y] by (simp only: of_int_le_iff)
    ultimately show ?thesis by linarith
  qed
qed

lemma ilog2_bounds:
  assumes "0 < q"
  shows "2 powi (ilog2 q) \<le> q" and "q < 2 powi (ilog2 q + 1)"
proof -
  obtain a b where ab: "quotient_of q = (a, b)" by (cases "quotient_of q")
  have b: "0 < b" using ab by (rule quotient_of_denom_pos)
  have q: "q = of_int a / of_int b" using ab by (rule quotient_of_div)
  have a: "0 < a" using assms b unfolding q by (simp add: zero_less_divide_iff)
  define k where "k = bitlen a - bitlen b"
  have la: "1 \<le> bitlen a" and lb: "1 \<le> bitlen b"
    using a b bitlen_eq_zero_iff [of a] bitlen_eq_zero_iff [of b] bitlen_nonneg [of a] bitlen_nonneg [of b]
    by linarith+
  have a_lo: "2 powi (bitlen a - 1) \<le> (of_int a :: rat)"
  proof -
    have "2 ^ nat (bitlen a - 1) \<le> a" using bitlen_bounds [OF a] by simp
    then have "(of_int (2 ^ nat (bitlen a - 1)) :: rat) \<le> of_int a" by (simp only: of_int_le_iff)
    then show ?thesis using la by (simp add: power_int_def)
  qed
  have a_hi: "(of_int a :: rat) < 2 powi (bitlen a)"
  proof -
    have "a < 2 ^ nat (bitlen a)" using bitlen_bounds [OF a] by simp
    then have "(of_int a :: rat) < of_int (2 ^ nat (bitlen a))" by (simp only: of_int_less_iff)
    then show ?thesis using la by (simp add: power_int_def)
  qed
  have b_lo: "2 powi (bitlen b - 1) \<le> (of_int b :: rat)"
  proof -
    have "2 ^ nat (bitlen b - 1) \<le> b" using bitlen_bounds [OF b] by simp
    then have "(of_int (2 ^ nat (bitlen b - 1)) :: rat) \<le> of_int b" by (simp only: of_int_le_iff)
    then show ?thesis using lb by (simp add: power_int_def)
  qed
  have b_hi: "(of_int b :: rat) < 2 powi (bitlen b)"
  proof -
    have "b < 2 ^ nat (bitlen b)" using bitlen_bounds [OF b] by simp
    then have "(of_int b :: rat) < of_int (2 ^ nat (bitlen b))" by (simp only: of_int_less_iff)
    then show ?thesis using lb by (simp add: power_int_def)
  qed
  have bpos: "(0 :: rat) < of_int b" using b by simp
  have lower: "2 powi (k - 1) \<le> q"
  proof -
    have "2 powi (k - 1) * (of_int b :: rat) \<le> 2 powi (k - 1) * 2 powi (bitlen b)"
      using b_hi by (simp add: mult_left_mono)
    also have "\<dots> = 2 powi (bitlen a - 1)"
      by (simp add: k_def flip: power_int_add)
    also have "\<dots> \<le> of_int a" by (rule a_lo)
    finally show ?thesis using bpos by (simp add: q pos_le_divide_eq)
  qed
  have upper: "q < 2 powi (k + 1)"
  proof -
    have "(of_int a :: rat) < 2 powi (bitlen a)" by (rule a_hi)
    also have "\<dots> = 2 powi (k + 1) * 2 powi (bitlen b - 1)"
      by (simp add: k_def flip: power_int_add)
    also have "\<dots> \<le> 2 powi (k + 1) * of_int b"
      using b_lo by (simp add: mult_left_mono)
    finally show ?thesis using bpos by (simp add: q pos_divide_less_eq)
  qed
  have il: "ilog2 q = (if 2 powi k \<le> q then k else k - 1)"
    by (simp add: ilog2_def ab k_def Let_def)
  show "2 powi (ilog2 q) \<le> q"
    using lower by (simp add: il)
  show "q < 2 powi (ilog2 q + 1)"
    using upper by (simp add: il)
qed

lemma ilog2_less:
  assumes "0 < q" and "q < 2 powi n"
  shows "ilog2 q < n"
proof (rule ccontr)
  assume "\<not> ilog2 q < n"
  then have "n \<le> ilog2 q" by simp
  then have "(2 :: rat) powi n \<le> 2 powi (ilog2 q)"
    by (rule power_int_increasing) simp
  with ilog2_bounds(1) [OF assms(1)] assms(2) show False by linarith
qed

lemma two_powi_pos: "(0 :: rat) < 2 powi e"
  by (simp add: zero_less_power_int)

lemma two_powi_nonpos: "e \<le> 0 \<Longrightarrow> (2 :: rat) powi e = 1 / 2 ^ nat (- e)"
  by (cases "e = 0") (simp_all add: power_int_def inverse_eq_divide power_one_over)

lemma float64_pos:
  "0 < q \<Longrightarrow>
   float64 q = of_int (round_half_even (q / 2 powi (ilog2 q - 52))) * 2 powi (ilog2 q - 52)"
  by (simp add: float64_def Let_def)

lemma float64_zero: "float64 0 = 0"
  by (simp add: float64_def)

lemma float64_grid_lower:
  assumes "0 < q" and "of_int k * 2 powi (ilog2 q - 52) \<le> q"
  shows "of_int k * 2 powi (ilog2 q - 52) \<le> float64 q"
proof -
  let ?p = "(2 :: rat) powi (ilog2 q - 52)"
  have p: "0 < ?p" by (rule two_powi_pos)
  have "of_int k \<le> q / ?p" using assms(2) p by (simp add: pos_le_divide_eq)
  then have "k \<le> round_half_even (q / ?p)" by (rule rhe_lower)
  then have "(of_int k :: rat) \<le> of_int (round_half_even (q / ?p))" by (simp only: of_int_le_iff)
  then have "of_int k * ?p \<le> of_int (round_half_even (q / ?p)) * ?p"
    using p by (simp add: mult_right_mono)
  then show ?thesis by (simp only: float64_pos [OF assms(1)])
qed

lemma float64_grid_upper:
  assumes "0 < q" and "q < (of_int k + 1 / 2) * 2 powi (ilog2 q - 52)"
  shows "float64 q \<le> of_int k * 2 powi (ilog2 q - 52)"
proof -
  let ?p = "(2 :: rat) powi (ilog2 q - 52)"
  have p: "0 < ?p" by (rule two_powi_pos)
  have "q / ?p < of_int k + 1 / 2" using assms(2) p by (simp add: pos_divide_less_eq)
  then have "round_half_even (q / ?p) \<le> k" by (rule rhe_upper)
  then have "(of_int (round_half_even (q / ?p)) :: rat) \<le> of_int k" by (simp only: of_int_le_iff)
  then have "of_int (round_half_even (q / ?p)) * ?p \<le> of_int k * ?p"
    using p by (simp add: mult_right_mono)
  then show ?thesis by (simp only: float64_pos [OF assms(1)])
qed

lemma float64_nonneg:
  assumes "0 \<le> q"
  shows "0 \<le> float64 q"
proof (cases "q = 0")
  case True
  then show ?thesis by (simp add: float64_zero)
next
  case False
  then have q: "0 < q" using assms by simp
  have "of_int 0 * 2 powi (ilog2 q - 52) \<le> float64 q"
    using q by (intro float64_grid_lower) simp_all
  then show ?thesis by simp
qed

lemma float64_le:
  assumes "0 < q"
  shows "float64 q \<le> q + q / 2 ^ 53"
proof -
  let ?p = "(2 :: rat) powi (ilog2 q - 52)"
  have p: "0 < ?p" by (rule two_powi_pos)
  have "of_int (round_half_even (q / ?p)) \<le> q / ?p + 1 / 2" by (rule rhe_le_half)
  then have "of_int (round_half_even (q / ?p)) * ?p \<le> (q / ?p + 1 / 2) * ?p"
    using p by (simp only: mult_le_cancel_right_pos)
  also have "\<dots> = q + ?p / 2" using p by (simp add: field_simps)
  finally have a: "float64 q \<le> q + ?p / 2" by (simp only: float64_pos [OF assms])
  have "?p = 2 powi (ilog2 q) / 2 ^ 52" by (simp add: power_int_diff)
  also have "\<dots> \<le> q / 2 ^ 52"
    using ilog2_bounds(1) [OF assms] by (simp add: divide_right_mono)
  finally have "?p / 2 \<le> q / 2 ^ 53" by simp
  with a show ?thesis by linarith
qed

lemma float64_of_int_exact:
  assumes "0 \<le> x" and "x < 2 ^ 53"
  shows "float64 (of_int x) = of_int x"
proof (cases "x = 0")
  case True
  then show ?thesis by (simp add: float64_zero)
next
  case False
  let ?q = "of_int x :: rat"
  let ?e = "ilog2 ?q - 52"
  have q: "0 < ?q" using assms(1) False by simp
  have "?q < of_int (2 ^ 53)" using assms(2) by (simp only: of_int_less_iff)
  then have "?q < 2 powi 53" by simp
  then have "ilog2 ?q < 53" by (rule ilog2_less [OF q])
  then have e: "?e \<le> 0" by simp
  have p: "(2 :: rat) powi ?e = 1 / 2 ^ nat (- ?e)" using e by (rule two_powi_nonpos)
  have x: "of_int (x * 2 ^ nat (- ?e)) * 2 powi ?e = ?q"
    by (simp add: p)
  have "of_int (x * 2 ^ nat (- ?e)) * 2 powi ?e \<le> float64 ?q"
    by (rule float64_grid_lower [OF q]) (simp only: x order_refl)
  moreover have "float64 ?q \<le> of_int (x * 2 ^ nat (- ?e)) * 2 powi ?e"
  proof (rule float64_grid_upper [OF q])
    have "(of_int (x * 2 ^ nat (- ?e)) + 1 / 2) * 2 powi ?e = ?q + 2 powi ?e / 2"
      using x by (simp add: algebra_simps)
    then show "?q < (of_int (x * 2 ^ nat (- ?e)) + 1 / 2) * 2 powi ?e"
      using two_powi_pos [of ?e] by simp
  qed
  ultimately show ?thesis using x by simp
qed

lemma float_0_8_value: "float_0_8 = 3602879701896397 / 4503599627370496"
  by code_simp

lemma float64_minus: "float64 (- q) = - float64 q"
  by (simp add: float64_def Let_def)

lemma float64_nonpos:
  assumes "q \<le> 0"
  shows "float64 q \<le> 0"
proof -
  have "0 \<le> float64 (- q)" using assms by (intro float64_nonneg) simp
  then show ?thesis by (simp add: float64_minus)
qed

lemma astype_int_clip_nonneg: "0 \<le> astype_int (clip_min_0 y)"
  by (simp add: astype_int_def clip_min_0_def)

lemma astype_int_clip_nonpos: "y \<le> 0 \<Longrightarrow> astype_int (clip_min_0 y) = 0"
  by (auto simp: astype_int_def clip_min_0_def)

lemma astype_int_clip_floor: "0 \<le> y \<Longrightarrow> astype_int (clip_min_0 y) = \<lfloor>y\<rfloor>"
  by (simp add: astype_int_def clip_min_0_def)

lemma recovered_of_unfold:
  "recovered_of c d = astype_int (clip_min_0 (float64 (float64 (of_int (wrap64 (c - d))) * float_0_8)))"
  by (simp add: recovered_of_def float64_mul_def float64_of_int_def)

lemma float_0_8_pos: "0 < float_0_8"
  by (simp add: float_0_8_value)

lemma recovered_of_nonneg: "0 \<le> recovered_of c d"
  by (simp add: recovered_of_unfold astype_int_clip_nonneg)

lemma recovered_of_nonpos_diff:
  assumes "wrap64 (c - d) \<le> 0"
  shows "recovered_of c d = 0"
proof -
  have "float64 (of_int (wrap64 (c - d))) \<le> 0" using assms by (intro float64_nonpos) simp
  then have "float64 (of_int (wrap64 (c - d))) * float_0_8 \<le> 0"
    using float_0_8_pos by (simp add: mult_le_0_iff)
  then have "float64 (float64 (of_int (wrap64 (c - d))) * float_0_8) \<le> 0" by (rule float64_nonpos)
  then show ?thesis by (simp only: recovered_of_unfold astype_int_clip_nonpos)
qed

text \<open>The product of a positive count below 3 * 2^49 with the double 0.8, rounded to a
  double, has the integer part of four fifths of the count.\<close>

lemma floor_float64_times_0_8:
  assumes "0 < x" and "x < 3 * 2 ^ 49"
  shows "\<lfloor>float64 (of_int x * float_0_8)\<rfloor> = (4 * x) div 5"
proof -
  define n where "n = (4 * x) div 5"
  define m where "m = (4 * x) mod 5"
  define q :: rat where "q = of_int x * float_0_8"
  define e where "e = ilog2 q - 52"
  define s where "s = nat (- e)"
  have m: "0 \<le> m" "m \<le> 4" by (simp_all add: m_def)
  have "4 * x = 5 * n + m" by (simp add: n_def m_def)
  then have "(of_int (4 * x) :: rat) = of_int (5 * n + m)" by (simp only:)
  then have x4: "4 * (of_int x :: rat) = 5 * of_int n + of_int m" by simp
  have xb: "(of_int x :: rat) < 3 * 2 ^ 49"
  proof -
    have "(of_int x :: rat) < of_int (3 * 2 ^ 49)" using assms(2) by (simp only: of_int_less_iff)
    then show ?thesis by simp
  qed
  have xp: "(0 :: rat) < of_int x" using assms(1) by simp
  have mr: "(0 :: rat) \<le> of_int m" "(of_int m :: rat) \<le> 4"
    using m by simp_all
  have qeq: "q = of_int n + of_int m / 5 + of_int x / (5 * 2 ^ 52)"
    using x4 by (simp add: q_def float_0_8_value field_simps)
  have q_lo: "of_int n \<le> q" using mr xp by (simp add: qeq)
  have q_hi: "q < of_int n + 7 / 8"
  proof -
    have "of_int x / (5 * 2 ^ 52) < (3 / 40 :: rat)" using xb by simp
    moreover have "(of_int m :: rat) / 5 \<le> 4 / 5" using mr by simp
    ultimately show ?thesis by (simp add: qeq)
  qed
  have qp: "0 < q" using xp by (simp add: q_def float_0_8_value)
  have "q < 2 powi 51"
  proof -
    have "q \<le> of_int x" using xp by (simp add: q_def float_0_8_value)
    then show ?thesis using xb by simp
  qed
  then have "ilog2 q < 51" by (rule ilog2_less [OF qp])
  then have e: "e \<le> - 2" by (simp add: e_def)
  then have s: "2 \<le> s" by (simp add: s_def)
  have p: "(2 :: rat) powi e = 1 / 2 ^ s"
    using e by (simp add: s_def two_powi_nonpos)
  have "(2 :: rat) ^ 2 \<le> 2 ^ s" using s by (intro power_increasing) simp_all
  then have s4: "(4 :: rat) \<le> 2 ^ s" by simp
  have p4: "(2 :: rat) powi e \<le> 1 / 4"
    using s4 by (simp add: p field_simps)
  have pp: "(0 :: rat) < 2 powi e" by (rule two_powi_pos)
  have lo: "of_int n \<le> float64 q"
  proof -
    have g: "of_int (n * 2 ^ s) * 2 powi e = (of_int n :: rat)" by (simp add: p)
    have "of_int (n * 2 ^ s) * 2 powi (ilog2 q - 52) \<le> float64 q"
      by (rule float64_grid_lower [OF qp]) (use g q_lo in \<open>simp only: e_def [symmetric]\<close>)
    then show ?thesis using g by (simp only: e_def [symmetric])
  qed
  have hi: "float64 q < of_int n + 1"
  proof -
    have g: "of_int ((n + 1) * 2 ^ s - 1) * 2 powi e = (of_int n :: rat) + 1 - 2 powi e"
      by (simp add: p field_simps)
    have h: "(of_int ((n + 1) * 2 ^ s - 1) + 1 / 2) * 2 powi e = (of_int n :: rat) + 1 - 2 powi e / 2"
      by (simp add: p field_simps)
    have "q < of_int n + 1 - 2 powi e / 2"
      using q_hi p4 by linarith
    then have "q < (of_int ((n + 1) * 2 ^ s - 1) + 1 / 2) * 2 powi e"
      by (simp only: h)
    then have "q < (of_int ((n + 1) * 2 ^ s - 1) + 1 / 2) * 2 powi (ilog2 q - 52)"
      by (simp only: e_def)
    then have "float64 q \<le> of_int ((n + 1) * 2 ^ s - 1) * 2 powi (ilog2 q - 52)"
      by (rule float64_grid_upper [OF qp])
    then have "float64 q \<le> of_int n + 1 - 2 powi e"
      using g by (simp only: e_def [symmetric])
    then show ?thesis using pp by linarith
  qed
  have "\<lfloor>float64 q\<rfloor> = n" using lo hi by (rule floor_unique)
  then show ?thesis by (simp only: q_def n_def)
qed

lemma recovered_of_small:
  assumes "0 < wrap64 (c - d)" and "wrap64 (c - d) < 3 * 2 ^ 49"
  shows "recovered_of c d = (4 * (wrap64 (c - d))) div 5"
proof -
  let ?x = "wrap64 (c - d)"
  have "?x < 2 ^ 53" using assms(2) by simp
  then have ex: "float64 (of_int ?x) = of_int ?x"
    using assms(1) by (intro float64_of_int_exact) simp_all
  have "0 \<le> of_int ?x * float_0_8" using assms(1) float_0_8_pos by simp
  then have "0 \<le> float64 (of_int ?x * float_0_8)" by (rule float64_nonneg)
  then have "recovered_of c d = \<lfloor>float64 (of_int ?x * float_0_8)\<rfloor>"
    by (simp only: recovered_of_unfold ex astype_int_clip_floor)
  then show ?thesis by (simp only: floor_float64_times_0_8 [OF assms])
qed

lemma spec_recovered_eq: "spec_recovered c d = (if c - d \<le> 0 then 0 else (4 * (c - d)) div 5)"
proof (cases "c - d \<le> 0")
  case True
  then have "of_int (c - d) * (8 / 10 :: rat) \<le> 0" by (simp add: mult_le_0_iff)
  then have "max 0 (of_int (c - d) * (8 / 10 :: rat)) = 0" by simp
  with True show ?thesis by (simp only: spec_recovered_def) simp
next
  case False
  then have "0 \<le> of_int (c - d) * (8 / 10 :: rat)" by simp
  then have "max 0 (of_int (c - d) * (8 / 10 :: rat)) = of_int (4 * (c - d)) / of_int 5"
    by simp
  then have "spec_recovered c d = \<lfloor>(of_int (4 * (c - d)) :: rat) / of_int 5\<rfloor>"
    by (simp only: spec_recovered_def)
  with False show ?thesis by (simp only: floor_divide_of_int_eq if_False)
qed

lemma spec_recovered_clamp_first_eq:
  "spec_recovered_clamp_first c d = (if c - d \<le> 0 then 0 else (4 * (c - d)) div 5)"
proof (cases "c - d \<le> 0")
  case True
  then have "max 0 (c - d) = 0" by simp
  with True show ?thesis by (simp add: spec_recovered_clamp_first_def)
next
  case False
  then have "max 0 (c - d) = c - d" by simp
  then have "of_int (max 0 (c - d)) * (8 / 10 :: rat) = of_int (4 * (c - d)) / of_int 5"
    by simp
  then have "spec_recovered_clamp_first c d = \<lfloor>(of_int (4 * (c - d)) :: rat) / of_int 5\<rfloor>"
    by (simp only: spec_recovered_clamp_first_def)
  with False show ?thesis by (simp only: floor_divide_of_int_eq if_False)
qed

lemma float64_le_rel:
  assumes "0 < q"
  shows "float64 q \<le> q * (1 + 1 / 2 ^ 53)"
proof -
  have "q + q / 2 ^ 53 = q * (1 + 1 / 2 ^ 53)" by (simp only: distrib_left mult_1_right times_divide_eq_right)
  then show ?thesis using float64_le [OF assms] by (simp only:)
qed

lemma recovered_of_le:
  assumes "0 \<le> wrap64 (c - d)"
  shows "recovered_of c d \<le> wrap64 (c - d)"
proof (cases "wrap64 (c - d) = 0")
  case True
  then show ?thesis by (simp add: recovered_of_nonpos_diff)
next
  case False
  define x :: rat where "x = of_int (wrap64 (c - d))"
  define a where "a = float64 x"
  define z where "z = a * float_0_8"
  define k :: rat where "k = 1 + 1 / 2 ^ 53"
  have xp: "0 < x" using assms False by (simp add: x_def)
  have kp: "0 < k" by (simp add: k_def)
  have a0: "0 \<le> a" unfolding a_def using xp by (intro float64_nonneg) simp
  have a1: "a \<le> x * k" unfolding a_def k_def using xp by (rule float64_le_rel)
  have z0: "0 \<le> z" unfolding z_def using a0 float_0_8_pos by simp
  have fz0: "0 \<le> float64 z" using z0 by (rule float64_nonneg)
  have fz: "float64 z \<le> x"
  proof (cases "z = 0")
    case True
    then have "float64 z = 0" by (simp only: float64_zero)
    with xp show ?thesis by linarith
  next
    case False
    with z0 have zp: "0 < z" by linarith
    have c: "k * (float_0_8 * k) \<le> 1" by (simp add: k_def float_0_8_value)
    have "float64 z \<le> z * k" unfolding k_def using zp by (rule float64_le_rel)
    also have "\<dots> = a * (float_0_8 * k)" by (simp only: z_def mult.assoc)
    also have "\<dots> \<le> (x * k) * (float_0_8 * k)"
      using a1 float_0_8_pos kp by (intro mult_right_mono) simp_all
    also have "\<dots> = x * (k * (float_0_8 * k))" by (simp only: mult.assoc)
    also have "\<dots> \<le> x * 1"
      using xp c by (intro mult_left_mono) simp_all
    finally show ?thesis by simp
  qed
  have "recovered_of c d = \<lfloor>float64 z\<rfloor>"
    using fz0 by (simp only: recovered_of_unfold astype_int_clip_floor z_def a_def x_def)
  also have "\<dots> \<le> \<lfloor>x\<rfloor>" using fz by (rule floor_mono)
  also have "\<dots> = wrap64 (c - d)" by (simp add: x_def)
  finally show ?thesis .
qed

section \<open>The derived columns\<close>

lemma Recovered_add_features: "Recovered (add_features r) = recovered_of (Confirmed r) (Deaths r)"
  by (simp add: add_features_def Let_def)

lemma Active_add_features:
  "Active (add_features r) =
     wrap64 (wrap64 (Confirmed r - Deaths r) - recovered_of (Confirmed r) (Deaths r))"
  by (simp add: add_features_def Let_def)

lemma Confirmed_add_features: "Confirmed (add_features r) = Confirmed r"
  by (simp add: add_features_def Let_def)

lemma Deaths_add_features: "Deaths (add_features r) = Deaths r"
  by (simp add: add_features_def Let_def)

text \<open>In \<^verbatim>\<open>int64\<close> arithmetic the three columns always add up to \<^verbatim>\<open>Confirmed\<close>.\<close>

lemma add_features_wrapped_sum:
  "wrap64 (Recovered (add_features r) + Active (add_features r) + Deaths (add_features r)) =
   wrap64 (Confirmed r)"
proof -
  let ?x = "Confirmed r - Deaths r"
  let ?rec = "recovered_of (Confirmed r) (Deaths r)"
  have "wrap64 (?rec + wrap64 (wrap64 ?x - ?rec) + Deaths r) =
        wrap64 ((?rec + Deaths r) + wrap64 (wrap64 ?x - ?rec))"
    by (simp only: add.assoc add.commute [of "Deaths r"])
  also have "\<dots> = wrap64 ((?rec + Deaths r) + (wrap64 ?x - ?rec))"
    by (rule wrap64_add_right)
  also have "\<dots> = wrap64 (Deaths r + wrap64 ?x)"
    by (simp only: add_diff_eq diff_add_eq add.commute [of ?rec] add_diff_cancel_right'
        add.assoc [symmetric]) simp
  also have "\<dots> = wrap64 (Deaths r + ?x)"
    by (rule wrap64_add_right)
  also have "\<dots> = wrap64 (Confirmed r)"
    by simp
  finally show ?thesis
    by (simp only: Recovered_add_features Active_add_features Deaths_add_features)
qed

text \<open>When the difference of line 29 does not wrap, neither does that of line 30.\<close>

lemma Active_add_features_exact:
  assumes "in_int64 (Confirmed r - Deaths r)"
  shows "Active (add_features r) =
         Confirmed r - Deaths r - recovered_of (Confirmed r) (Deaths r)"
proof -
  let ?x = "Confirmed r - Deaths r"
  let ?rec = "recovered_of (Confirmed r) (Deaths r)"
  have w: "wrap64 ?x = ?x" using assms by (rule wrap64_id)
  have lo: "- (2 ^ 63) \<le> ?x" and hi: "?x < 2 ^ 63"
    using assms by (simp_all add: in_int64_def)
  have r0: "0 \<le> ?rec" by (rule recovered_of_nonneg)
  have "in_int64 (?x - ?rec)"
  proof (cases "0 \<le> ?x")
    case True
    then have "0 \<le> wrap64 ?x" by (simp only: w)
    then have "?rec \<le> wrap64 ?x" by (rule recovered_of_le)
    then have "?rec \<le> ?x" by (simp only: w)
    with r0 hi show ?thesis unfolding in_int64_def by linarith
  next
    case False
    then have "wrap64 ?x \<le> 0" by (simp add: w)
    then have "?rec = 0" by (rule recovered_of_nonpos_diff)
    with lo hi show ?thesis unfolding in_int64_def by linarith
  qed
  then have "wrap64 (?x - ?rec) = ?x - ?rec" by (rule wrap64_id)
  then show ?thesis by (simp only: Active_add_features w)
qed

lemma add_features_invariant:
  assumes "in_int64 (Confirmed r - Deaths r)"
  shows "Recovered (add_features r) + Active (add_features r) + Deaths (add_features r) =
           Confirmed (add_features r) \<and>
         (Deaths (add_features r) \<le> Confirmed (add_features r) \<longrightarrow>
            0 \<le> Active (add_features r))"
proof -
  have w: "wrap64 (Confirmed r - Deaths r) = Confirmed r - Deaths r"
    using assms by (rule wrap64_id)
  have "recovered_of (Confirmed r) (Deaths r) \<le> Confirmed r - Deaths r"
    if "Deaths r \<le> Confirmed r"
  proof -
    have "0 \<le> wrap64 (Confirmed r - Deaths r)" using that by (simp add: w)
    then have "recovered_of (Confirmed r) (Deaths r) \<le> wrap64 (Confirmed r - Deaths r)"
      by (rule recovered_of_le)
    then show ?thesis by (simp only: w)
  qed
  then show ?thesis
    by (simp add: Recovered_add_features Active_add_features_exact [OF assms]
        Confirmed_add_features Deaths_add_features)
qed

lemma in_int64_groupby_sum:
  assumes "g \<in> set (groupby_sum data)"
  shows "in_int64 (Confirmed g)" and "in_int64 (Deaths g)"
  using assms by (auto simp: groupby_sum_def in_int64_wrap64)

text \<open>
  C1. Every row of the loaded frame has \<^verbatim>\<open>Recovered\<close> at least 0, and its \<^verbatim>\<open>Recovered\<close>,
  \<^verbatim>\<open>Active\<close> and \<^verbatim>\<open>Deaths\<close> add up to its \<^verbatim>\<open>Confirmed\<close> in \<^verbatim>\<open>int64\<close> arithmetic. When
  \<^verbatim>\<open>Confirmed - Deaths\<close> lies in the \<^verbatim>\<open>int64\<close> range, so that the subtraction of line 29
  does not wrap around, they add up to it as integers, and \<^verbatim>\<open>Active\<close> is at least 0
  whenever \<^verbatim>\<open>Confirmed\<close> is at least \<^verbatim>\<open>Deaths\<close>: a negative \<^verbatim>\<open>Active\<close> needs
  \<^verbatim>\<open>Confirmed - Deaths\<close> below 0. The last part rests on the rounded product never
  exceeding the difference it scales.
\<close>

theorem derived_row_invariant:
  assumes "r \<in> set (load_data to_datetime csv)"
  shows "0 \<le> Recovered r \<and>
         wrap64 (Recovered r + Active r + Deaths r) = Confirmed r \<and>
         (in_int64 (Confirmed r - Deaths r) \<longrightarrow>
            Recovered r + Active r + Deaths r = Confirmed r \<and>
            (Deaths r \<le> Confirmed r \<longrightarrow> 0 \<le> Active r) \<and>
            (Active r < 0 \<longrightarrow> Confirmed r - Deaths r < 0))"
proof -
  obtain g where g: "g \<in> set (groupby_sum (dropna_Date (coerce_dates to_datetime csv)))"
    and r: "r = add_features g"
    using assms by (auto simp: load_data_def)
  have "in_int64 (Confirmed g)" using g by (rule in_int64_groupby_sum)
  then have c: "wrap64 (Confirmed g) = Confirmed g" by (rule wrap64_id)
  have 1: "0 \<le> Recovered r"
    by (simp only: r Recovered_add_features recovered_of_nonneg)
  have 2: "wrap64 (Recovered r + Active r + Deaths r) = Confirmed r"
    using add_features_wrapped_sum [of g] by (simp only: r c Confirmed_add_features)
  have 3: "Recovered r + Active r + Deaths r = Confirmed r \<and>
           (Deaths r \<le> Confirmed r \<longrightarrow> 0 \<le> Active r) \<and>
           (Active r < 0 \<longrightarrow> Confirmed r - Deaths r < 0)"
    if "in_int64 (Confirmed r - Deaths r)"
  proof -
    have "in_int64 (Confirmed g - Deaths g)"
      using that by (simp only: r Confirmed_add_features Deaths_add_features)
    then show ?thesis
      using add_features_invariant [of g] unfolding r by auto
  qed
  show ?thesis using 1 2 3 by blast
qed

text \<open>On the first day of the example: 83 recovered, 21 active and 6 deaths of 110
  confirmed.\<close>

theorem derived_row_invariant_witness:
  "day1 \<in> set (load_data (map example_to_date) example_csv) \<and>
   in_int64 (Confirmed day1 - Deaths day1) \<and>
   Deaths day1 \<le> Confirmed day1 \<and>
   0 \<le> Recovered day1 \<and>
   wrap64 (Recovered day1 + Active day1 + Deaths day1) = Confirmed day1 \<and>
   Recovered day1 + Active day1 + Deaths day1 = Confirmed day1 \<and>
   0 \<le> Active day1"
proof -
  have m: "day1 \<in> set (load_data (map example_to_date) example_csv)"
    by code_simp
  have i: "in_int64 (Confirmed day1 - Deaths day1)"
    by code_simp
  have d: "Deaths day1 \<le> Confirmed day1"
    by code_simp
  show ?thesis
    using m i d derived_row_invariant [OF m] by blast
qed

text \<open>
  Where the range is left, the frame holds what the wrap-around gives. Two reports of
  one day with \<open>2 ^ 62\<close> confirmed and \<open>2 ^ 62\<close> deaths each sum to \<open>- 2 ^ 63\<close> in both
  columns. Two reports with no confirmed case and \<open>2 ^ 62\<close> deaths each give \<open>- 2 ^ 63\<close>
  deaths; the difference \<open>0 - (- 2 ^ 63)\<close> wraps around to \<open>- 2 ^ 63\<close>, nothing is recovered,
  and \<^verbatim>\<open>Active\<close> is \<open>- 2 ^ 63\<close>.
\<close>

theorem int64_sums_and_differences_wrap_around:
  "load_data (map example_to_date)
     [\<lparr>Country = ''X'', Date = ''2021-01-01T08:00Z'',
        Confirmed = 4611686018427387904, Deaths = 4611686018427387904\<rparr>,
      \<lparr>Country = ''X'', Date = ''2021-01-01T20:00Z'',
        Confirmed = 4611686018427387904, Deaths = 4611686018427387904\<rparr>] =
     [\<lparr>Country = ''X'', Date = (2021, 1, 1),
        Confirmed = - 9223372036854775808, Deaths = - 9223372036854775808,
        Recovered = 0, Active = 0\<rparr>] \<and>
   load_data (map example_to_date)
     [\<lparr>Country = ''X'', Date = ''2021-01-01T08:00Z'',
        Confirmed = 0, Deaths = 4611686018427387904\<rparr>,
      \<lparr>Country = ''X'', Date = ''2021-01-01T20:00Z'',
        Confirmed = 0, Deaths = 4611686018427387904\<rparr>] =
     [\<lparr>Country = ''X'', Date = (2021, 1, 1),
        Confirmed = 0, Deaths = - 9223372036854775808,
        Recovered = 0, Active = - 9223372036854775808\<rparr>]"
  by code_simp

text \<open>
  C2, as the code has it. The code subtracts in \<^verbatim>\<open>int64\<close>, scales in \<^verbatim>\<open>float64\<close>, then
  clamps the product at 0, then drops the fraction. As long as \<^verbatim>\<open>Confirmed - Deaths\<close> is
  at least \<open>- 2 ^ 63\<close>, so that the subtraction does not wrap around, and below
  \<open>3 * 2 ^ 49\<close> (1688849860263936), the result is the specification's
  \<^verbatim>\<open>floor(max(0, (confirmed - deaths) * 0.8))\<close> in exact arithmetic, and it is also what
  clamping the difference before the scaling gives: the two orders cannot be told apart.
\<close>

theorem recovered_is_floor_of_clamped_four_fifths:
  assumes "- (2 ^ 63) \<le> Confirmed r - Deaths r"
    and "Confirmed r - Deaths r < 3 * 2 ^ 49"
  shows "Recovered (add_features r) = spec_recovered (Confirmed r) (Deaths r) \<and>
         Recovered (add_features r) = spec_recovered_clamp_first (Confirmed r) (Deaths r)"
proof -
  have "in_int64 (Confirmed r - Deaths r)"
    using assms by (simp add: in_int64_def)
  then have w: "wrap64 (Confirmed r - Deaths r) = Confirmed r - Deaths r"
    by (rule wrap64_id)
  show ?thesis
  proof (cases "Confirmed r - Deaths r \<le> 0")
    case True
    then have "wrap64 (Confirmed r - Deaths r) \<le> 0" by (simp only: w)
    then have "recovered_of (Confirmed r) (Deaths r) = 0" by (rule recovered_of_nonpos_diff)
    with True show ?thesis
      by (simp add: Recovered_add_features spec_recovered_eq spec_recovered_clamp_first_eq)
  next
    case False
    then have "0 < wrap64 (Confirmed r - Deaths r)"
      and "wrap64 (Confirmed r - Deaths r) < 3 * 2 ^ 49"
      using assms(2) by (simp_all add: w)
    then have "recovered_of (Confirmed r) (Deaths r) =
               (4 * wrap64 (Confirmed r - Deaths r)) div 5"
      by (rule recovered_of_small)
    with False show ?thesis
      by (simp add: w Recovered_add_features spec_recovered_eq spec_recovered_clamp_first_eq)
  qed
qed

text \<open>On the first day of the example, 104 cases that did not end in death: 83
  recovered, the integer part of 83.2.\<close>

theorem recovered_is_floor_of_clamped_four_fifths_witness:
  "- (2 ^ 63) \<le> (110 :: int) - 6 \<and>
   (110 :: int) - 6 < 3 * 2 ^ 49 \<and>
   Recovered (add_features \<lparr>Country = ''X'', Date = (2021, 1, 1), Confirmed = 110, Deaths = 6\<rparr>) =
     spec_recovered 110 6 \<and>
   Recovered (add_features \<lparr>Country = ''X'', Date = (2021, 1, 1), Confirmed = 110, Deaths = 6\<rparr>) =
     spec_recovered_clamp_first 110 6 \<and>
   spec_recovered 110 6 = 83"
proof -
  have a: "- (2 ^ 63) \<le>
           Confirmed \<lparr>Country = ''X'', Date = (2021, 1, 1) :: date, Confirmed = 110, Deaths = 6\<rparr> -
           Deaths \<lparr>Country = ''X'', Date = (2021, 1, 1) :: date, Confirmed = 110, Deaths = 6\<rparr>"
    by simp
  have b: "Confirmed \<lparr>Country = ''X'', Date = (2021, 1, 1) :: date, Confirmed = 110, Deaths = 6\<rparr> -
           Deaths \<lparr>Country = ''X'', Date = (2021, 1, 1) :: date, Confirmed = 110, Deaths = 6\<rparr>
           < 3 * 2 ^ 49"
    by simp
  have v: "spec_recovered 110 6 = 83"
    by code_simp
  show ?thesis
    using v recovered_is_floor_of_clamped_four_fifths [OF a b] by simp
qed

text \<open>
  C2 as stated, for every pair of integer fields, fails on either side of these bounds.
  For 1688849860263936 confirmed and no deaths, the first difference the upper bound
  excludes, the exact four fifths are 1351079888211148.8; the product with the double
  nearest to 0.8 is 1351079888211148.875, halfway between the doubles
  1351079888211148.75 and 1351079888211149; the tie goes to the even significand, which
  is the latter, and the code stores 1351079888211149 where the formula gives
  1351079888211148. For \<open>- 2 ^ 63\<close> confirmed and 1 death the \<^verbatim>\<open>int64\<close> difference wraps
  around to \<open>2 ^ 63 - 1\<close>, and the code stores 7378697629483821056 where the formula
  gives 0.
\<close>

theorem recovered_differs_from_formula:
  "Recovered (add_features \<lparr>Country = ''X'', Date = (2021, 1, 1),
                            Confirmed = 1688849860263936, Deaths = 0\<rparr>) = 1351079888211149 \<and>
   spec_recovered 1688849860263936 0 = 1351079888211148 \<and>
   spec_recovered_clamp_first 1688849860263936 0 = 1351079888211148 \<and>
   Recovered (add_features \<lparr>Country = ''X'', Date = (2021, 1, 1),
                            Confirmed = - 9223372036854775808, Deaths = 1\<rparr>) =
     7378697629483821056 \<and>
   spec_recovered (- 9223372036854775808) 1 = 0 \<and>
   spec_recovered_clamp_first (- 9223372036854775808) 1 = 0"
  by code_simp

section \<open>Dropping the rows without a day\<close>

lemma dropna_Date_Nil: "dropna_Date [] = []"
  by (simp add: dropna_Date_def map_filter_simps)

lemma dropna_Date_Cons:
  "dropna_Date (r # rs) =
     (case Date r of
        None \<Rightarrow> dropna_Date rs
      | Some d \<Rightarrow> \<lparr>Country = Country r, Date = d, Confirmed = Confirmed r, Deaths = Deaths r\<rparr>
                  # dropna_Date rs)"
  by (simp add: dropna_Date_def map_filter_simps split: option.split)






section \<open>The grouping\<close>

lemma group_key_row [simp]:
  "group_key \<lparr>Country = c, Date = d, Confirmed = x, Deaths = y\<rparr> = (c, d)"
  by (simp add: group_key_def)

lemma set_group_keys: "set (group_keys data) = group_key ` set data"
  by (simp add: group_keys_def)

lemma distinct_group_keys: "distinct (group_keys data)"
  by (simp add: group_keys_def)

lemma sorted_group_keys: "sorted (group_keys data)"
  by (simp add: group_keys_def)

lemma keys_groupby_sum: "map group_key (groupby_sum data) = group_keys data"
  by (simp add: groupby_sum_def comp_def)

lemma sum_list_group:
  "sum_list (map f (group_rows data k)) =
   sum_mset (image_mset f (filter_mset (\<lambda>r. group_key r = k) (mset data)))"
proof -
  have "sum_mset (image_mset f (filter_mset (\<lambda>r. group_key r = k) (mset data))) =
        sum_mset (mset (map f (filter (\<lambda>r. group_key r = k) data)))"
    by simp
  also have "\<dots> = sum_list (map f (filter (\<lambda>r. group_key r = k) data))"
    by (rule sum_mset_sum_list)
  finally show ?thesis by (simp add: group_rows_def)
qed

text \<open>
  C3. The grouped frame has one row per pair (country, day) of the input: no pair
  twice, and exactly the pairs of the input. The \<^verbatim>\<open>Confirmed\<close> and \<^verbatim>\<open>Deaths\<close> of a row are
  the \<^verbatim>\<open>int64\<close> sums of these columns over all input rows with the row's pair, each
  input row counted as often as it occurs: the exact sum wrapped around, and so the exact
  sum itself whenever that lies in the \<^verbatim>\<open>int64\<close> range.
\<close>

theorem groupby_sum_one_row_per_key:
  "distinct (map group_key (groupby_sum data)) \<and>
   set (map group_key (groupby_sum data)) = set (map group_key data) \<and>
   (\<forall>g \<in> set (groupby_sum data).
      Confirmed g =
        wrap64 (\<Sum>r \<in># filter_mset (\<lambda>r. group_key r = group_key g) (mset data). Confirmed r) \<and>
      Deaths g =
        wrap64 (\<Sum>r \<in># filter_mset (\<lambda>r. group_key r = group_key g) (mset data). Deaths r) \<and>
      (in_int64 (\<Sum>r \<in># filter_mset (\<lambda>r. group_key r = group_key g) (mset data). Confirmed r) \<longrightarrow>
         Confirmed g =
           (\<Sum>r \<in># filter_mset (\<lambda>r. group_key r = group_key g) (mset data). Confirmed r)) \<and>
      (in_int64 (\<Sum>r \<in># filter_mset (\<lambda>r. group_key r = group_key g) (mset data). Deaths r) \<longrightarrow>
         Deaths g =
           (\<Sum>r \<in># filter_mset (\<lambda>r. group_key r = group_key g) (mset data). Deaths r)))"
proof -
  have "distinct (map group_key (groupby_sum data))"
    by (simp add: keys_groupby_sum distinct_group_keys)
  moreover have "set (map group_key (groupby_sum data)) = set (map group_key data)"
    by (simp add: keys_groupby_sum set_group_keys)
  moreover have
    "Confirmed g =
       wrap64 (\<Sum>r \<in># filter_mset (\<lambda>r. group_key r = group_key g) (mset data). Confirmed r) \<and>
     Deaths g =
       wrap64 (\<Sum>r \<in># filter_mset (\<lambda>r. group_key r = group_key g) (mset data). Deaths r)"
    if "g \<in> set (groupby_sum data)" for g
    using that by (auto simp: groupby_sum_def sum_list_group)
  ultimately show ?thesis
    using wrap64_id by metis
qed

text \<open>On the example: the two reports of the first day are one row, 100 + 10 confirmed
  and 5 + 1 deaths, and both sums are far inside the \<^verbatim>\<open>int64\<close> range.\<close>

theorem groupby_sum_one_row_per_key_witness:
  "groupby_sum example_rows =
     [\<lparr>Country = ''X'', Date = (2021, 1, 1), Confirmed = 110, Deaths = 6\<rparr>,
      \<lparr>Country = ''X'', Date = (2021, 1, 2), Confirmed = 50, Deaths = 2\<rparr>] \<and>
   distinct (map group_key (groupby_sum example_rows)) \<and>
   set (map group_key (groupby_sum example_rows)) = set (map group_key example_rows) \<and>
   list_all
     (\<lambda>g. in_int64
             (\<Sum>r \<in># filter_mset (\<lambda>r. group_key r = group_key g) (mset example_rows). Confirmed r) \<and>
           in_int64
             (\<Sum>r \<in># filter_mset (\<lambda>r. group_key r = group_key g) (mset example_rows). Deaths r) \<and>
           Confirmed g =
             (\<Sum>r \<in># filter_mset (\<lambda>r. group_key r = group_key g) (mset example_rows). Confirmed r) \<and>
           Deaths g =
             (\<Sum>r \<in># filter_mset (\<lambda>r. group_key r = group_key g) (mset example_rows). Deaths r))
     (groupby_sum example_rows)"
proof -
  have v: "groupby_sum example_rows =
     [\<lparr>Country = ''X'', Date = (2021, 1, 1), Confirmed = 110, Deaths = 6\<rparr>,
      \<lparr>Country = ''X'', Date = (2021, 1, 2), Confirmed = 50, Deaths = 2\<rparr>]"
    by code_simp
  have r: "list_all
     (\<lambda>g. in_int64 (sum_list (map Confirmed (group_rows example_rows (group_key g)))) \<and>
           in_int64 (sum_list (map Deaths (group_rows example_rows (group_key g)))))
     (groupby_sum example_rows)"
    by code_simp
  have "in_int64
          (\<Sum>r \<in># filter_mset (\<lambda>r. group_key r = group_key g) (mset example_rows). Confirmed r) \<and>
        in_int64
          (\<Sum>r \<in># filter_mset (\<lambda>r. group_key r = group_key g) (mset example_rows). Deaths r)"
    if "g \<in> set (groupby_sum example_rows)" for g
    using r that by (simp add: list_all_iff sum_list_group)
  then show ?thesis
    using v groupby_sum_one_row_per_key [of example_rows] by (simp only: list_all_iff) blast
qed

lemma group_keys_cong: "set data = set data' \<Longrightarrow> group_keys data = group_keys data'"
  by (simp add: group_keys_def flip: sorted_list_of_set_sort_remdups)

lemma groupby_sum_perm:
  assumes "mset data = mset data'"
  shows "groupby_sum data = groupby_sum data'"
proof -
  have "set data = set data'" using assms by (metis set_mset_mset)
  then have "group_keys data = group_keys data'" by (rule group_keys_cong)
  then show ?thesis
    by (simp add: groupby_sum_def sum_list_group assms)
qed

lemma key_not_in_image: "f y \<notin> f ` set ys \<Longrightarrow> x \<in> set ys \<Longrightarrow> f x = f y \<Longrightarrow> False"
  by (metis imageI)

lemma filter_key_single:
  "distinct (map f xs) \<Longrightarrow> x \<in> set xs \<Longrightarrow> filter (\<lambda>r. f r = f x) xs = [x]"
proof (induction xs)
  case Nil
  then show ?case by simp
next
  case (Cons y ys)
  have fresh: "f y \<notin> f ` set ys" and dist: "distinct (map f ys)"
    using Cons.prems(1) by simp_all
  show ?case
  proof (cases "x = y")
    case True
    have "filter (\<lambda>r. f r = f y) ys = []"
      using fresh by (auto simp: filter_empty_conv dest: key_not_in_image)
    with True show ?thesis by simp
  next
    case False
    then have xin: "x \<in> set ys" using Cons.prems(2) by simp
    then have "f y \<noteq> f x" using fresh by blast
    then show ?thesis using Cons.IH [OF dist xin] by simp
  qed
qed

lemma groupby_sum_idem: "groupby_sum (groupby_sum data) = groupby_sum data"
proof -
  let ?out = "groupby_sum data"
  have keys: "group_keys ?out = group_keys data"
  proof -
    have "group_keys ?out = sort (remdups (group_keys data))"
      by (simp add: group_keys_def [of ?out] keys_groupby_sum)
    also have "\<dots> = group_keys data"
      by (simp add: distinct_group_keys sorted_group_keys sort_key_id_if_sorted)
    finally show ?thesis .
  qed
  have row: "\<lparr>Country = fst k, Date = snd k,
              Confirmed = wrap64 (sum_list (map Confirmed (group_rows ?out k))),
              Deaths = wrap64 (sum_list (map Deaths (group_rows ?out k)))\<rparr> =
            \<lparr>Country = fst k, Date = snd k,
              Confirmed = wrap64 (sum_list (map Confirmed (group_rows data k))),
              Deaths = wrap64 (sum_list (map Deaths (group_rows data k)))\<rparr>"
    if "k \<in> set (group_keys data)" for k
  proof -
    let ?g = "\<lparr>Country = fst k, Date = snd k,
              Confirmed = wrap64 (sum_list (map Confirmed (group_rows data k))),
              Deaths = wrap64 (sum_list (map Deaths (group_rows data k)))\<rparr>"
    have "?g \<in> set ?out" using that by (auto simp: groupby_sum_def)
    moreover have "distinct (map group_key ?out)"
      by (simp add: keys_groupby_sum distinct_group_keys)
    ultimately have "filter (\<lambda>r. group_key r = group_key ?g) ?out = [?g]"
      by (rule filter_key_single [rotated])
    then have "group_rows ?out k = [?g]"
      by (simp add: group_rows_def)
    then show ?thesis by (simp add: wrap64_wrap64)
  qed
  have "groupby_sum ?out = map (\<lambda>k. \<lparr>Country = fst k, Date = snd k,
                Confirmed = wrap64 (sum_list (map Confirmed (group_rows ?out k))),
                Deaths = wrap64 (sum_list (map Deaths (group_rows ?out k)))\<rparr>) (group_keys data)"
    by (simp only: groupby_sum_def [of ?out] keys)
  also have "\<dots> = map (\<lambda>k. \<lparr>Country = fst k, Date = snd k,
                Confirmed = wrap64 (sum_list (map Confirmed (group_rows data k))),
                Deaths = wrap64 (sum_list (map Deaths (group_rows data k)))\<rparr>) (group_keys data)"
    by (rule map_cong [OF refl]) (rule row)
  also have "\<dots> = ?out"
    by (simp only: groupby_sum_def [of data])
  finally show ?thesis .
qed

text \<open>
  C9. The grouping does not depend on the order of its input: two frames with the same
  rows, each as often, in any order, give the same grouped frame, row for row (so the
  same set of rows). And it is idempotent: grouping a grouped frame changes nothing.
  Both hold with the \<^verbatim>\<open>int64\<close> sums as they are, wrapped around or not.
\<close>

theorem groupby_sum_order_independent_idempotent:
  "(mset data = mset data' \<longrightarrow> groupby_sum data = groupby_sum data') \<and>
   groupby_sum (groupby_sum data) = groupby_sum data"
  using groupby_sum_perm [of data data'] groupby_sum_idem [of data] by blast

text \<open>On the example, read backwards.\<close>

theorem groupby_sum_order_independent_idempotent_witness:
  "mset example_rows = mset (rev example_rows) \<and>
   example_rows \<noteq> rev example_rows \<and>
   groupby_sum example_rows = groupby_sum (rev example_rows) \<and>
   groupby_sum (groupby_sum example_rows) = groupby_sum example_rows"
proof -
  have perm: "mset example_rows = mset (rev example_rows)"
    by simp
  have "example_rows \<noteq> rev example_rows"
    by code_simp
  then show ?thesis
    using perm groupby_sum_order_independent_idempotent [of example_rows "rev example_rows"]
    by blast
qed

section \<open>The filter and the cards\<close>

lemma update_dashboard_parsed:
  "parse_date strptime s = Inr a \<Longrightarrow> parse_date strptime e = Inr b \<Longrightarrow> data \<noteq> [] \<Longrightarrow>
   update_dashboard strptime data c s e = Inr (kpis (filter_data data c a b))"
  by (simp add: update_dashboard_def)

lemma filter_data_Nil: "filter_data [] c a b = []"
  by (simp add: filter_data_def)

lemma example_data_not_empty: "example_data \<noteq> []"
  by code_simp

lemma filtered_kpis: "filtered (kpis rows) = rows"
  by (simp add: kpis_def split: list.split)

lemma kpis_Nil: "kpis [] = no_data"
  by (simp add: kpis_def no_data_def)

lemma set_filter_data:
  "set (filter_data data c a b) = {r \<in> set data. Country r = c \<and> a \<le> Date r \<and> Date r \<le> b}"
  by (simp add: filter_data_def)

lemma sorted_filter_data: "sorted (map Date (filter_data data c a b))"
  by (simp add: filter_data_def)

lemma filter_data_empty:
  "\<forall>r \<in> set data. \<not> (Country r = c \<and> a \<le> Date r \<and> Date r \<le> b) \<Longrightarrow> filter_data data c a b = []"
  by (simp add: filter_data_def filter_empty_conv)

lemma col_max_Max: "col_max x xs = Max (set (x # xs))"
  using Max.set_eq_fold [of x xs] by (simp add: col_max_def)

lemma sorted_last_greatest:
  "sorted (map f xs) \<Longrightarrow> r \<in> set xs \<Longrightarrow> f r \<le> f (last xs)"
proof (induction xs)
  case Nil
  then show ?case by simp
next
  case (Cons x xs)
  then show ?case by (cases xs) auto
qed

lemma map_group_key_add_features:
  "map group_key (map add_features rows) = map group_key rows"
  by (simp add: group_key_def add_features_def Let_def)

lemma keys_load_data:
  "map group_key (load_data to_datetime csv) =
   group_keys (dropna_Date (coerce_dates to_datetime csv))"
  by (simp only: load_data_def map_group_key_add_features keys_groupby_sum)

lemma same_country_dates:
  assumes "\<forall>r \<in> set rows. Country r = c"
  shows "map Date rows = map snd (map group_key rows)"
    and "map group_key rows = map (Pair c) (map Date rows)"
  using assms by (induction rows) (simp_all add: group_key_def)

lemma same_country_strictly_ascending:
  assumes "\<forall>r \<in> set rows. Country r = c"
    and "sorted (map group_key rows)" and "distinct (map group_key rows)"
  shows "sorted_wrt (<) (map Date rows)"
proof -
  have k: "map group_key rows = map (Pair c) (map Date rows)"
    using assms(1) by (rule same_country_dates)
  have "sorted_wrt (<) (map group_key rows)"
    using assms(2,3) by (simp add: strict_sorted_iff)
  then have "sorted_wrt (<) (map (Pair c) (map Date rows))" by (simp only: k)
  then have "sorted_wrt (\<lambda>x y. Pair c x < Pair c y) (map Date rows)"
    by (simp only: sorted_wrt_map)
  then show ?thesis by simp
qed

text \<open>
  The loaded frame is in the order of its keys and has no key twice, since the grouping
  leaves it so. The rows of one country in it are therefore in strictly ascending order
  of day already: \<^verbatim>\<open>sort_values('Date')\<close> finds no two rows with the same day and moves
  none, whatever sorting algorithm pandas runs.
\<close>

theorem loaded_frame_has_no_ties:
  "distinct (map group_key (load_data to_datetime csv)) \<and>
   sorted (map group_key (load_data to_datetime csv)) \<and>
   sorted_wrt (<) (map Date (filter_data (load_data to_datetime csv) country start_date end_date)) \<and>
   filter_data (load_data to_datetime csv) country start_date end_date =
     filter (\<lambda>r. Country r = country \<and> start_date \<le> Date r \<and> Date r \<le> end_date)
       (load_data to_datetime csv)"
proof -
  let ?data = "load_data to_datetime csv"
  let ?P = "\<lambda>r. Country r = country \<and> start_date \<le> Date r \<and> Date r \<le> end_date"
  have d: "distinct (map group_key ?data)"
    by (simp only: keys_load_data distinct_group_keys)
  have s: "sorted (map group_key ?data)"
    by (simp only: keys_load_data sorted_group_keys)
  have c: "\<forall>r \<in> set (filter ?P ?data). Country r = country" by simp
  have "sorted (map group_key (filter ?P ?data))" using s by (rule sorted_filter)
  moreover have "distinct (map group_key (filter ?P ?data))" using d by (rule distinct_map_filter)
  ultimately have strict: "sorted_wrt (<) (map Date (filter ?P ?data))"
    using c by (intro same_country_strictly_ascending [of _ country]) 
  then have "sorted (map Date (filter ?P ?data))" by (simp add: strict_sorted_iff)
  then have id: "filter_data ?data country start_date end_date = filter ?P ?data"
    by (simp only: filter_data_def sort_key_id_if_sorted)
  show ?thesis using d s strict id by simp
qed

text \<open>
  The empty frame: whatever the three inputs, the callback does not answer. It raises
  \<^verbatim>\<open>ValueError\<close> on a date string that does not parse and \<^verbatim>\<open>TypeError\<close> at the comparison
  of line 107 otherwise. A CSV none of whose timestamps parses loads such a frame.
\<close>

theorem empty_frame_is_never_answered:
  "load_data (\<lambda>column. map (\<lambda>text. None) column) csv = [] \<and>
   update_dashboard strptime [] country start_date_str end_date_str \<noteq> Inr res \<and>
   update_dashboard strptime [] country start_date_str end_date_str \<in> {Inl ValueError, Inl TypeError}"
proof -
  have "dropna_Date (coerce_dates (\<lambda>column. map (\<lambda>text. None) column) csv) = []"
    by (induction csv) (simp_all add: coerce_dates_def dropna_Date_Nil dropna_Date_Cons)
  then have "load_data (\<lambda>column. map (\<lambda>text. None) column) csv = []"
    by (simp add: load_data_def groupby_sum_def group_keys_def)
  then show ?thesis
    by (auto simp: update_dashboard_def parse_date_def split: sum.split option.splits)
qed

text \<open>
  C5. On a frame that has a row, with date strings that parse, the callback returns,
  and the rows of the filtered frame are exactly the rows of \<^verbatim>\<open>data\<close> whose country is the
  selected one and whose day lies between the start day and the end day, both included;
  the filtered frame is in ascending order of day. This holds for any two days, also a
  start after the end.
\<close>

theorem filtered_rows_in_range_sorted:
  assumes "data \<noteq> []"
    and "parse_date strptime start_date_str = Inr start_date"
    and "parse_date strptime end_date_str = Inr end_date"
  shows "\<exists>res. update_dashboard strptime data country start_date_str end_date_str = Inr res \<and>
           (\<forall>r. r \<in> set (filtered res) \<longleftrightarrow>
                  r \<in> set data \<and> Country r = country \<and>
                  start_date \<le> Date r \<and> Date r \<le> end_date) \<and>
           sorted (map Date (filtered res))"
  using assms
  by (simp add: update_dashboard_parsed filtered_kpis set_filter_data sorted_filter_data)

text \<open>On the example: from the first day to the first day, the row of the first day is
  in the filtered frame and the row of the second day is not.\<close>

theorem filtered_rows_in_range_sorted_witness:
  "example_data \<noteq> [] \<and>
   parse_date example_strptime ''2021-01-01'' = Inr (2021, 1, 1) \<and>
   parse_date example_strptime ''2021-01-01T23:59:59'' = Inr (2021, 1, 1) \<and>
   (\<exists>res. update_dashboard example_strptime example_data ''X'' ''2021-01-01''
             ''2021-01-01T23:59:59'' = Inr res \<and>
          (\<forall>r. r \<in> set (filtered res) \<longleftrightarrow>
                 r \<in> set example_data \<and> Country r = ''X'' \<and>
                 (2021, 1, 1) \<le> Date r \<and> Date r \<le> (2021, 1, 1)) \<and>
          sorted (map Date (filtered res)) \<and>
          filtered res = [day1])"
proof -
  have s: "parse_date example_strptime ''2021-01-01'' = Inr (2021, 1, 1)"
    by code_simp
  have e: "parse_date example_strptime ''2021-01-01T23:59:59'' = Inr (2021, 1, 1)"
    by code_simp
  have u: "update_dashboard example_strptime example_data ''X'' ''2021-01-01''
             ''2021-01-01T23:59:59'' =
           Inr \<lparr>filtered = [day1], total_cases = 110, total_deaths = 6, total_recovered = 83,
                 active_cases = 21\<rparr>"
    by code_simp
  from filtered_rows_in_range_sorted [OF example_data_not_empty s e, of "''X''"] obtain res where
    r: "update_dashboard example_strptime example_data ''X'' ''2021-01-01''
          ''2021-01-01T23:59:59'' = Inr res"
    and p1: "\<forall>r. r \<in> set (filtered res) \<longleftrightarrow>
                 r \<in> set example_data \<and> Country r = ''X'' \<and>
                 (2021, 1, 1) \<le> Date r \<and> Date r \<le> (2021, 1, 1)"
    and p2: "sorted (map Date (filtered res))"
    by blast
  from r u have v: "filtered res = [day1]"
    by auto
  show ?thesis
    by (intro conjI exI [of _ res]) (fact example_data_not_empty s e r p1 p2 v)+
qed

text \<open>
  C4. With date strings that parse and a filtered frame that is not empty, the callback
  returns; the cards for confirmed, deaths and recovered show the greatest value of
  their column over the filtered frame; the card for active cases shows the \<^verbatim>\<open>Active\<close> of
  the last row of the filtered frame, and no row of the filtered frame has a later day
  than that row.
\<close>

theorem kpis_of_nonempty_frame:
  assumes "parse_date strptime start_date_str = Inr start_date"
    and "parse_date strptime end_date_str = Inr end_date"
    and "filter_data data country start_date end_date \<noteq> []"
  shows "\<exists>res. update_dashboard strptime data country start_date_str end_date_str = Inr res \<and>
           filtered res = filter_data data country start_date end_date \<and>
           total_cases res = Max (Confirmed ` set (filtered res)) \<and>
           total_deaths res = Max (Deaths ` set (filtered res)) \<and>
           total_recovered res = Max (Recovered ` set (filtered res)) \<and>
           active_cases res = Active (last (filtered res)) \<and>
           (\<forall>r \<in> set (filtered res). Date r \<le> Date (last (filtered res)))"
proof -
  let ?rows = "filter_data data country start_date end_date"
  obtain r rs where rows: "?rows = r # rs"
    using assms(3) by (cases ?rows) auto
  have last: "\<forall>x \<in> set ?rows. Date x \<le> Date (last ?rows)"
    using sorted_last_greatest [OF sorted_filter_data] by blast
  have "total_cases (kpis ?rows) = Max (Confirmed ` set ?rows)"
    by (simp add: kpis_def rows col_max_Max)
  moreover have "total_deaths (kpis ?rows) = Max (Deaths ` set ?rows)"
    by (simp add: kpis_def rows col_max_Max)
  moreover have "total_recovered (kpis ?rows) = Max (Recovered ` set ?rows)"
    by (simp add: kpis_def rows col_max_Max)
  moreover have "active_cases (kpis ?rows) = Active (last ?rows)"
    by (simp add: kpis_def rows)
  moreover have "data \<noteq> []"
    using assms(3) by (auto simp: filter_data_Nil)
  ultimately show ?thesis
    using assms(1,2) last by (simp add: update_dashboard_parsed filtered_kpis)
qed

text \<open>On the example, over both days: 110 confirmed, 6 deaths and 83 recovered are the
  maxima, all of the first day; the active cases are the 10 of the second day, not the
  21 of the first.\<close>

theorem kpis_of_nonempty_frame_witness:
  "parse_date example_strptime ''2021-01-01'' = Inr (2021, 1, 1) \<and>
   parse_date example_strptime ''2021-01-02'' = Inr (2021, 1, 2) \<and>
   filter_data example_data ''X'' (2021, 1, 1) (2021, 1, 2) \<noteq> [] \<and>
   (\<exists>res. update_dashboard example_strptime example_data ''X'' ''2021-01-01'' ''2021-01-02''
            = Inr res \<and>
          filtered res = filter_data example_data ''X'' (2021, 1, 1) (2021, 1, 2) \<and>
          total_cases res = Max (Confirmed ` set (filtered res)) \<and>
          total_deaths res = Max (Deaths ` set (filtered res)) \<and>
          total_recovered res = Max (Recovered ` set (filtered res)) \<and>
          active_cases res = Active (last (filtered res)) \<and>
          (\<forall>r \<in> set (filtered res). Date r \<le> Date (last (filtered res))) \<and>
          res = \<lparr>filtered = [day1, day2], total_cases = 110, total_deaths = 6,
                  total_recovered = 83, active_cases = 10\<rparr>)"
proof -
  have s: "parse_date example_strptime ''2021-01-01'' = Inr (2021, 1, 1)"
    by code_simp
  have e: "parse_date example_strptime ''2021-01-02'' = Inr (2021, 1, 2)"
    by code_simp
  have n: "filter_data example_data ''X'' (2021, 1, 1) (2021, 1, 2) \<noteq> []"
    by code_simp
  have u: "update_dashboard example_strptime example_data ''X'' ''2021-01-01'' ''2021-01-02'' =
        Inr \<lparr>filtered = [day1, day2], total_cases = 110, total_deaths = 6,
              total_recovered = 83, active_cases = 10\<rparr>"
    by code_simp
  from kpis_of_nonempty_frame [OF s e n] obtain res where
    r: "update_dashboard example_strptime example_data ''X'' ''2021-01-01'' ''2021-01-02'' = Inr res"
    and p1: "filtered res = filter_data example_data ''X'' (2021, 1, 1) (2021, 1, 2)"
    and p2: "total_cases res = Max (Confirmed ` set (filtered res))"
    and p3: "total_deaths res = Max (Deaths ` set (filtered res))"
    and p4: "total_recovered res = Max (Recovered ` set (filtered res))"
    and p5: "active_cases res = Active (last (filtered res))"
    and p6: "\<forall>r \<in> set (filtered res). Date r \<le> Date (last (filtered res))"
    by blast
  from r u have v: "res = \<lparr>filtered = [day1, day2], total_cases = 110, total_deaths = 6,
                            total_recovered = 83, active_cases = 10\<rparr>"
    by simp
  show ?thesis
    by (intro conjI exI [of _ res]) (fact s e n r p1 p2 p3 p4 p5 p6 v)+
qed



text \<open>
  C7, as the code has it. The callback does not check the country. On a frame that has
  a row, for a country that no row of \<^verbatim>\<open>data\<close> has, so one outside the dropdown's options,
  and date strings that parse, it returns normally, with an empty frame and 0 on all
  four cards, as for any other query without a matching row.
\<close>

theorem unknown_country_gives_zero_cards:
  assumes "data \<noteq> []"
    and "country \<notin> set (listCountries data)"
    and "parse_date strptime start_date_str = Inr start_date"
    and "parse_date strptime end_date_str = Inr end_date"
  shows "update_dashboard strptime data country start_date_str end_date_str = Inr no_data"
proof -
  have "\<forall>r \<in> set data. Country r \<noteq> country"
    using assms(2) by (auto simp: listCountries_def)
  then have "filter_data data country start_date end_date = []"
    by (auto intro: filter_data_empty)
  then show ?thesis
    using assms(1,3,4) by (simp add: update_dashboard_parsed kpis_Nil)
qed

theorem unknown_country_gives_zero_cards_witness:
  "example_data \<noteq> [] \<and>
   ''Morocco'' \<notin> set (listCountries example_data) \<and>
   parse_date example_strptime ''2021-01-01'' = Inr (2021, 1, 1) \<and>
   parse_date example_strptime ''2021-01-02'' = Inr (2021, 1, 2) \<and>
   update_dashboard example_strptime example_data ''Morocco'' ''2021-01-01'' ''2021-01-02'' =
     Inr no_data"
proof -
  have c: "''Morocco'' \<notin> set (listCountries example_data)"
    by code_simp
  have s: "parse_date example_strptime ''2021-01-01'' = Inr (2021, 1, 1)"
    by code_simp
  have e: "parse_date example_strptime ''2021-01-02'' = Inr (2021, 1, 2)"
    by code_simp
  have u: "update_dashboard example_strptime example_data ''Morocco'' ''2021-01-01''
             ''2021-01-02'' = Inr no_data"
    by (rule unknown_country_gives_zero_cards [OF example_data_not_empty c s e])
  show ?thesis
    by (intro conjI) (fact example_data_not_empty c s e u)+
qed

text \<open>
  C7 as stated fails: \<open>Atlantis\<close> is not among the countries of the example's frame, and
  the query for it is answered, not refused: the result is the \<open>Inr\<close> of the empty frame
  with 0 on all cards, and no error.
\<close>

theorem unknown_country_is_not_refused:
  "''Atlantis'' \<notin> set (listCountries example_data) \<and>
   update_dashboard example_strptime example_data ''Atlantis'' ''2021-01-01'' ''2021-01-03'' =
     Inr \<lparr>filtered = [], total_cases = 0, total_deaths = 0, total_recovered = 0,
           active_cases = 0\<rparr>"
  by code_simp

section \<open>The date strings\<close>

lemma split_T_append: "split_T (p @ CHR ''T'' # t) = split_T p"
  by (induction p) (simp_all add: split_T_def)

lemma split_T_no_T: "CHR ''T'' \<notin> set p \<Longrightarrow> split_T p = p"
  by (induction p) (auto simp: split_T_def)

lemma parse_date_append: "parse_date strptime (p @ CHR ''T'' # t) = parse_date strptime p"
  by (simp add: parse_date_def split_T_append)

lemma parse_date_no_T:
  "CHR ''T'' \<notin> set p \<Longrightarrow>
   parse_date strptime p = (case strptime p of None \<Rightarrow> Inl ValueError | Some d \<Rightarrow> Inr d)"
  by (simp add: parse_date_def split_T_no_T)

lemma update_dashboard_append:
  "update_dashboard strptime data country (p @ CHR ''T'' # t) (q @ CHR ''T'' # u) =
   update_dashboard strptime data country p q"
  by (simp add: update_dashboard_def parse_date_append split: sum.split)

text \<open>
  C10. The callback accepts date strings with a time of day after a \<^verbatim>\<open>T\<close> and uses of
  each only the calendar date before the \<^verbatim>\<open>T\<close>. For a date part \<open>p\<close> without a \<^verbatim>\<open>T\<close>, what
  \<^verbatim>\<open>split('T')[0]\<close> hands to \<^verbatim>\<open>strptime\<close> is \<open>p\<close> itself, whatever follows the \<^verbatim>\<open>T\<close>; the
  string is accepted, with the day \<^verbatim>\<open>strptime\<close> reads from \<open>p\<close>, exactly when \<open>p\<close> alone
  is; and the callback gives for the two strings with their suffixes the result it gives
  for the two date parts alone. So two calls that differ only after the \<^verbatim>\<open>T\<close> give the
  same result.
\<close>

theorem update_dashboard_uses_the_date_before_T:
  assumes "CHR ''T'' \<notin> set p" and "CHR ''T'' \<notin> set q"
  shows "split_T (p @ CHR ''T'' # t) = p \<and>
         split_T (q @ CHR ''T'' # u) = q \<and>
         parse_date strptime (p @ CHR ''T'' # t) =
           (case strptime p of None \<Rightarrow> Inl ValueError | Some d \<Rightarrow> Inr d) \<and>
         parse_date strptime (q @ CHR ''T'' # u) =
           (case strptime q of None \<Rightarrow> Inl ValueError | Some d \<Rightarrow> Inr d) \<and>
         update_dashboard strptime data country (p @ CHR ''T'' # t) (q @ CHR ''T'' # u) =
           update_dashboard strptime data country p q \<and>
         update_dashboard strptime data country (p @ CHR ''T'' # t) (q @ CHR ''T'' # u) =
           update_dashboard strptime data country (p @ CHR ''T'' # t') (q @ CHR ''T'' # u')"
proof -
  have "split_T (p @ CHR ''T'' # t) = p" and "split_T (q @ CHR ''T'' # u) = q"
    using assms by (simp_all add: split_T_append split_T_no_T)
  moreover have "parse_date strptime (p @ CHR ''T'' # t) =
           (case strptime p of None \<Rightarrow> Inl ValueError | Some d \<Rightarrow> Inr d)"
    using parse_date_no_T [OF assms(1), of strptime] by (simp only: parse_date_append)
  moreover have "parse_date strptime (q @ CHR ''T'' # u) =
           (case strptime q of None \<Rightarrow> Inl ValueError | Some d \<Rightarrow> Inr d)"
    using parse_date_no_T [OF assms(2), of strptime] by (simp only: parse_date_append)
  moreover have "update_dashboard strptime data country (p @ CHR ''T'' # t) (q @ CHR ''T'' # u) =
           update_dashboard strptime data country p q"
    by (rule update_dashboard_append)
  moreover have "update_dashboard strptime data country (p @ CHR ''T'' # t) (q @ CHR ''T'' # u) =
           update_dashboard strptime data country (p @ CHR ''T'' # t') (q @ CHR ''T'' # u')"
    by (simp only: update_dashboard_append)
  ultimately show ?thesis by blast
qed

text \<open>On the example: the picker's \<^verbatim>\<open>2021-01-01T00:00:00\<close> and \<^verbatim>\<open>2021-01-02T23:59:59\<close> are
  accepted, read as the first and the second day, and answered as the two dates alone
  are, with both rows of the example.\<close>

theorem update_dashboard_uses_the_date_before_T_witness:
  "CHR ''T'' \<notin> set ''2021-01-01'' \<and>
   CHR ''T'' \<notin> set ''2021-01-02'' \<and>
   split_T ''2021-01-01T00:00:00'' = ''2021-01-01'' \<and>
   split_T ''2021-01-02T23:59:59'' = ''2021-01-02'' \<and>
   parse_date example_strptime ''2021-01-01T00:00:00'' = Inr (2021, 1, 1) \<and>
   parse_date example_strptime ''2021-01-02T23:59:59'' = Inr (2021, 1, 2) \<and>
   update_dashboard example_strptime example_data ''X'' ''2021-01-01T00:00:00''
     ''2021-01-02T23:59:59'' =
   update_dashboard example_strptime example_data ''X'' ''2021-01-01'' ''2021-01-02'' \<and>
   update_dashboard example_strptime example_data ''X'' ''2021-01-01T00:00:00''
     ''2021-01-02T23:59:59'' =
   Inr \<lparr>filtered = [day1, day2], total_cases = 110, total_deaths = 6,
         total_recovered = 83, active_cases = 10\<rparr>"
proof -
  have p: "CHR ''T'' \<notin> set ''2021-01-01''" and q: "CHR ''T'' \<notin> set ''2021-01-02''"
    by simp_all
  have a: "''2021-01-01T00:00:00'' = ''2021-01-01'' @ CHR ''T'' # ''00:00:00''"
    and b: "''2021-01-02T23:59:59'' = ''2021-01-02'' @ CHR ''T'' # ''23:59:59''"
    by simp_all
  have s1: "example_strptime ''2021-01-01'' = Some (2021, 1, 1)"
    and s2: "example_strptime ''2021-01-02'' = Some (2021, 1, 2)"
    by code_simp+
  have u: "update_dashboard example_strptime example_data ''X'' ''2021-01-01'' ''2021-01-02'' =
           Inr \<lparr>filtered = [day1, day2], total_cases = 110, total_deaths = 6,
                 total_recovered = 83, active_cases = 10\<rparr>"
    by code_simp
  note t = update_dashboard_uses_the_date_before_T
    [OF p q, of "''00:00:00''" "''23:59:59''" example_strptime example_data "''X''"]
  show ?thesis
    unfolding a b using p q t s1 s2 u by (simp only: option.case) metis
qed

end
